theory Spec2Isabelle
  imports Main
begin

section \<open>Text primitives of the Python runtime\<close>

text \<open>
  A Python \<open>str\<close> is modelled as an Isabelle \<open>string\<close>, one \<open>char\<close> per code point, so
  the texts of the model are those over the code points 0 to 255.  The case mappings,
  the word class \<open>\w\<close>, the digit class \<open>\d\<close> and the whitespace class (\<open>str.isspace\<close>,
  \<open>\s\<close>, \<open>str.strip\<close>) are those of the runtime on these code points.
\<close>

definition ascii_lowercase :: string where
  "ascii_lowercase = ''abcdefghijklmnopqrstuvwxyz''"

definition ascii_uppercase :: string where
  "ascii_uppercase = ''ABCDEFGHIJKLMNOPQRSTUVWXYZ''"

definition digits :: string where
  "digits = ''0123456789''"

text \<open>
  The cased letters above the ASCII range: the capitals \<open>0xC0\<close> to \<open>0xDE\<close> without the
  multiplication sign \<open>0xD7\<close>, and the small letters \<open>0xE0\<close> to \<open>0xFE\<close>, each 32 above its
  capital, without the division sign \<open>0xF7\<close>.
\<close>

definition latin1_uppercase :: string where
  "latin1_uppercase =
     [CHR 0xC0, CHR 0xC1, CHR 0xC2, CHR 0xC3, CHR 0xC4, CHR 0xC5, CHR 0xC6, CHR 0xC7,
      CHR 0xC8, CHR 0xC9, CHR 0xCA, CHR 0xCB, CHR 0xCC, CHR 0xCD, CHR 0xCE, CHR 0xCF,
      CHR 0xD0, CHR 0xD1, CHR 0xD2, CHR 0xD3, CHR 0xD4, CHR 0xD5, CHR 0xD6, CHR 0xD8,
      CHR 0xD9, CHR 0xDA, CHR 0xDB, CHR 0xDC, CHR 0xDD, CHR 0xDE]"

definition latin1_lowercase :: string where
  "latin1_lowercase =
     [CHR 0xE0, CHR 0xE1, CHR 0xE2, CHR 0xE3, CHR 0xE4, CHR 0xE5, CHR 0xE6, CHR 0xE7,
      CHR 0xE8, CHR 0xE9, CHR 0xEA, CHR 0xEB, CHR 0xEC, CHR 0xED, CHR 0xEE, CHR 0xEF,
      CHR 0xF0, CHR 0xF1, CHR 0xF2, CHR 0xF3, CHR 0xF4, CHR 0xF5, CHR 0xF6, CHR 0xF8,
      CHR 0xF9, CHR 0xFA, CHR 0xFB, CHR 0xFC, CHR 0xFD, CHR 0xFE]"

text \<open>\<open>str.lower()\<close>: every capital becomes its small letter.\<close>

definition lower_char :: "char \<Rightarrow> char" where
  "lower_char c =
     (case map_of (zip (ascii_uppercase @ latin1_uppercase)
                       (ascii_lowercase @ latin1_lowercase)) c of
        Some d \<Rightarrow> d
      | None \<Rightarrow> c)"

definition lower :: "string \<Rightarrow> string" where
  "lower s = map lower_char s"

text \<open>
  \<open>str.upper()\<close> leaves the range for three characters: the sharp s \<open>0xDF\<close> becomes the
  two letters \<open>SS\<close>, the micro sign \<open>0xB5\<close> becomes the Greek capital mu \<open>U+039C\<close>, and the
  y with diaeresis \<open>0xFF\<close> becomes its capital \<open>U+0178\<close>.  Upper-cased text is therefore a
  list of code points of a wider type: a code point of the range or one of these two.
\<close>

datatype code_point = Cp char | U039C | U0178

definition upper_char :: "char \<Rightarrow> code_point list" where
  "upper_char c =
     (if c = CHR 0xDF then [Cp CHR ''S'', Cp CHR ''S'']
      else if c = CHR 0xB5 then [U039C]
      else if c = CHR 0xFF then [U0178]
      else [Cp (case map_of (zip (ascii_lowercase @ latin1_lowercase)
                                 (ascii_uppercase @ latin1_uppercase)) c of
                  Some d \<Rightarrow> d
                | None \<Rightarrow> c)])"

definition upper :: "string \<Rightarrow> code_point list" where
  "upper s = concat (map upper_char s)"

text \<open>Python's \<open>needle in haystack\<close> on strings: a contiguous occurrence.\<close>

fun str_in :: "string \<Rightarrow> string \<Rightarrow> bool" where
  "str_in needle [] = (needle = [])"
| "str_in needle (c # cs) = (take (length needle) (c # cs) = needle \<or> str_in needle cs)"

text \<open>
  The character classes of the regular-expression engine on text patterns.  \<open>\w\<close> is
  the underscore or an alphanumeric character: the ASCII letters and digits, the cased
  letters above, the sharp s and the y with diaeresis, the two ordinal indicators \<open>0xAA\<close>
  and \<open>0xBA\<close>, the micro sign \<open>0xB5\<close>, the superscript digits \<open>0xB2\<close>, \<open>0xB3\<close>, \<open>0xB9\<close> and
  the fractions \<open>0xBC\<close> to \<open>0xBE\<close>; the two code points outside the range are letters.
  \<open>\d\<close> is a decimal digit, which in the range are the ten ASCII digits.  \<open>\s\<close> and
  \<open>str.isspace\<close> agree, and hold of tab, line feed, vertical tab, form feed, carriage
  return, the four separators \<open>0x1C\<close> to \<open>0x1F\<close>, the space, the next-line control
  \<open>0x85\<close> and the no-break space \<open>0xA0\<close>.
\<close>

definition word_characters :: string where
  "word_characters =
     ascii_lowercase @ ascii_uppercase @ digits @ ''_'' @
     [CHR 0xAA, CHR 0xB2, CHR 0xB3, CHR 0xB5, CHR 0xB9, CHR 0xBA, CHR 0xBC, CHR 0xBD,
      CHR 0xBE, CHR 0xDF, CHR 0xFF] @
     latin1_uppercase @ latin1_lowercase"

definition is_word :: "char \<Rightarrow> bool" where
  "is_word c \<longleftrightarrow> c \<in> set word_characters"

fun is_word_point :: "code_point \<Rightarrow> bool" where
  "is_word_point (Cp c) = is_word c"
| "is_word_point U039C = True"
| "is_word_point U0178 = True"

definition is_digit :: "char \<Rightarrow> bool" where
  "is_digit c \<longleftrightarrow> c \<in> set digits"

definition whitespace :: string where
  "whitespace =
     [CHR 0x09, CHR 0x0A, CHR 0x0B, CHR 0x0C, CHR 0x0D,
      CHR 0x1C, CHR 0x1D, CHR 0x1E, CHR 0x1F, CHR 0x20, CHR 0x85, CHR 0xA0]"

definition is_space :: "char \<Rightarrow> bool" where
  "is_space c \<longleftrightarrow> c \<in> set whitespace"

text \<open>\<open>str.strip()\<close> without argument: whitespace is removed at both ends.\<close>

definition strip :: "string \<Rightarrow> string" where
  "strip s = rev (dropWhile is_space (rev (dropWhile is_space s)))"

text \<open>
  \<open>re.search(r'\b' + re.escape(keyword) + r'\b', text)\<close> on upper-cased text.  The
  escaped keyword matches itself literally, code point by code point.  \<open>\b\<close> holds at a
  position when exactly one of the character before it and the character after it is a
  word character; the start and the end of the text count as non-word.  A position
  matches when the keyword stands there and both boundaries hold.  The search tries every
  start position from left to right; the argument \<open>prev\<close> is the character to the left of
  the current position.
\<close>

fun word_opt :: "code_point option \<Rightarrow> bool" where
  "word_opt None = False"
| "word_opt (Some c) = is_word_point c"

definition boundary :: "code_point option \<Rightarrow> code_point option \<Rightarrow> bool" where
  "boundary prev next \<longleftrightarrow> word_opt prev \<noteq> word_opt next"

definition head_opt :: "code_point list \<Rightarrow> code_point option" where
  "head_opt s = (case s of [] \<Rightarrow> None | c # _ \<Rightarrow> Some c)"

definition match_bounded_here ::
  "code_point list \<Rightarrow> code_point option \<Rightarrow> code_point list \<Rightarrow> bool" where
  "match_bounded_here keyword prev s \<longleftrightarrow>
     (if take (length keyword) s = keyword
      then boundary prev (head_opt s) \<and>
           boundary (if keyword = [] then prev else Some (last keyword))
             (head_opt (drop (length keyword) s))
      else False)"

fun search_bounded_from ::
  "code_point list \<Rightarrow> code_point option \<Rightarrow> code_point list \<Rightarrow> bool" where
  "search_bounded_from keyword prev [] = match_bounded_here keyword prev []"
| "search_bounded_from keyword prev (c # cs) =
     (match_bounded_here keyword prev (c # cs) \<or> search_bounded_from keyword (Some c) cs)"

definition re_search_bounded :: "string \<Rightarrow> code_point list \<Rightarrow> bool" where
  "re_search_bounded keyword s = search_bounded_from (map Cp keyword) None s"

text \<open>
  \<open>re.compile(r'^\+?[\d\s\-\(\)]{10,20}$').match(text)\<close>: an optional plus sign, then
  ten to twenty characters of the class, then the end of the text, which \<open>$\<close> also finds
  just before a line feed that ends the text.
\<close>

definition phone_class :: "char \<Rightarrow> bool" where
  "phone_class c \<longleftrightarrow> is_digit c \<or> is_space c \<or> c \<in> set ''-()''"

definition phone_body :: "string \<Rightarrow> bool" where
  "phone_body s \<longleftrightarrow> 10 \<le> length s \<and> length s \<le> 20 \<and> list_all phone_class s"

definition phone_to_end :: "string \<Rightarrow> bool" where
  "phone_to_end s \<longleftrightarrow>
     phone_body s \<or> (case s of [] \<Rightarrow> False | c # cs \<Rightarrow> c = CHR ''+'' \<and> phone_body cs)"

definition phone_pattern_match :: "string \<Rightarrow> bool" where
  "phone_pattern_match s \<longleftrightarrow>
     phone_to_end s \<or> (s \<noteq> [] \<and> last s = CHR 0x0A \<and> phone_to_end (butlast s))"

section \<open>Custom validators\<close>

text \<open>
  A validator either returns normally (\<open>None\<close>) or raises one of the two exceptions of
  the form library, each carrying its message.
\<close>

datatype exn = ValidationError string | StopValidation string

text \<open>
  \<open>validate_no_xss\<close>: the loop over \<open>dangerous_chars\<close> raises at the first entry that
  occurs in the lower-cased field data.
\<close>

definition dangerous_chars :: "string list" where
  "dangerous_chars =
     [''<script>'', ''</script>'', ''<iframe>'', ''javascript:'',
      ''onerror='', ''onload='', ''<img'', ''<object>'']"

fun xss_loop :: "string list \<Rightarrow> string \<Rightarrow> exn option" where
  "xss_loop [] data_lower = None"
| "xss_loop (char # chars) data_lower =
     (if str_in char data_lower
      then Some (ValidationError ''Invalid HTML or script content detected'')
      else xss_loop chars data_lower)"

definition validate_no_xss :: "string \<Rightarrow> exn option" where
  "validate_no_xss data = (let data_lower = lower data in xss_loop dangerous_chars data_lower)"

text \<open>
  \<open>validate_no_sql_injection\<close>: the field data is upper-cased, and the loop over
  \<open>sql_keywords\<close> raises at the first keyword found between two word boundaries.  The
  keywords are compared as they are written in the list.
\<close>

definition sql_keywords :: "string list" where
  "sql_keywords =
     [''SELECT'', ''INSERT'', ''UPDATE'', ''DELETE'', ''DROP'', ''CREATE'',
      ''ALTER'', ''EXEC'', ''UNION'', ''SCRIPT'', ''--'', '';'', ''/*'', ''*/'',
      ''xp_'', ''sp_'', ''OR'', ''AND'', ''1=1'', ''1 = 1'']"

fun sql_loop :: "string list \<Rightarrow> code_point list \<Rightarrow> exn option" where
  "sql_loop [] data_upper = None"
| "sql_loop (keyword # keywords) data_upper =
     (if re_search_bounded keyword data_upper
      then Some (ValidationError ''Invalid characters or keywords detected'')
      else sql_loop keywords data_upper)"

definition validate_no_sql_injection :: "string \<Rightarrow> exn option" where
  "validate_no_sql_injection data =
     (let data_upper = upper data in sql_loop sql_keywords data_upper)"

text \<open>\<open>validate_phone\<close>.\<close>

definition validate_phone :: "string \<Rightarrow> exn option" where
  "validate_phone data =
     (if \<not> phone_pattern_match data
      then Some (ValidationError ''Invalid phone number format'')
      else None)"

text \<open>
  The specification's reading of "appears case-insensitively": some contiguous part of
  the value equals the blacklisted text once letter case is ignored.
\<close>

definition occurs_ignoring_case :: "string \<Rightarrow> string \<Rightarrow> bool" where
  "occurs_ignoring_case k s \<longleftrightarrow> (\<exists>ps t ss. s = ps @ t @ ss \<and> lower t = lower k)"

section \<open>Form fields and their validator chains\<close>

text \<open>
  The forms are declared with the form library's field classes; what the library does
  with a declaration is written out here as far as the handlers depend on it.  A field
  holds the submitted text as it arrived (the declarations give no filters) and the list
  of messages collected so far.  A validator is called with the field and raises or
  returns; the only validator that touches the field is \<open>DataRequired\<close>, which empties
  the message list before it raises.
\<close>

record field =
  data :: string
  errors :: "string list"

type_synonym validator = "field \<Rightarrow> exn option \<times> field"

text \<open>The validators of this application read \<open>field.data\<close> and nothing else.\<close>

definition on_data :: "(string \<Rightarrow> exn option) \<Rightarrow> validator" where
  "on_data v f = (v (data f), f)"

text \<open>
  \<open>DataRequired(message)\<close>: the data must be non-empty and, being text, must not consist
  of whitespace only; otherwise the messages so far are dropped and \<open>StopValidation\<close> is
  raised.
\<close>

definition DataRequired :: "string \<Rightarrow> validator" where
  "DataRequired message f =
     (if data f \<noteq> [] \<and> strip (data f) \<noteq> [] then (None, f)
      else (Some (StopValidation message), f\<lparr>errors := []\<rparr>))"

text \<open>
  \<open>Length(min, max, message)\<close>, both bounds inclusive and \<open>-1\<close> for a bound that is not
  given.
\<close>

definition Length :: "int \<Rightarrow> int \<Rightarrow> string \<Rightarrow> validator" where
  "Length min_len max_len message f =
     (let n = int (length (data f))
      in if min_len \<le> n \<and> (max_len = - 1 \<or> n \<le> max_len) then (None, f)
         else (Some (ValidationError message), f))"

text \<open>
  \<open>Email(message)\<close> hands the data to an address checker of its own library; the checker
  is the parameter \<open>address_ok\<close>.
\<close>

definition Email :: "(string \<Rightarrow> bool) \<Rightarrow> string \<Rightarrow> validator" where
  "Email address_ok message f =
     (if address_ok (data f) then (None, f) else (Some (ValidationError message), f))"

text \<open>
  The field runs its chain in order.  A \<open>ValidationError\<close> adds its message and the chain
  goes on; a \<open>StopValidation\<close> adds its message, when it has one, and ends the chain.
\<close>

fun run_validation_chain :: "validator list \<Rightarrow> field \<Rightarrow> bool \<times> field" where
  "run_validation_chain [] f = (False, f)"
| "run_validation_chain (v # vs) f =
     (case v f of
        (None, f') \<Rightarrow> run_validation_chain vs f'
      | (Some (ValidationError m), f') \<Rightarrow>
          run_validation_chain vs (f'\<lparr>errors := errors f' @ [m]\<rparr>)
      | (Some (StopValidation m), f') \<Rightarrow>
          (True, if m \<noteq> [] then f'\<lparr>errors := errors f' @ [m]\<rparr> else f'))"

text \<open>Validating a field starts from an empty message list and yields the messages.\<close>

definition field_validate :: "validator list \<Rightarrow> string \<Rightarrow> string list" where
  "field_validate validators raw =
     errors (snd (run_validation_chain validators \<lparr>data = raw, errors = []\<rparr>))"

subsection \<open>LoginForm\<close>

record login_data =
  form_username :: string
  form_password :: string

definition LoginForm_username :: "validator list" where
  "LoginForm_username =
     [DataRequired ''Username is required'',
      Length 3 80 ''Username must be 3-80 characters'',
      on_data validate_no_sql_injection,
      on_data validate_no_xss]"

definition LoginForm_password :: "validator list" where
  "LoginForm_password =
     [DataRequired ''Password is required'',
      Length 6 (- 1) ''Password must be at least 6 characters'']"

text \<open>Every field is validated; the result maps each field name to its messages.\<close>

definition LoginForm_errors :: "login_data \<Rightarrow> (string \<times> string list) list" where
  "LoginForm_errors d =
     [(''username'', field_validate LoginForm_username (form_username d)),
      (''password'', field_validate LoginForm_password (form_password d))]"

subsection \<open>ContactForm\<close>

record contact_data =
  form_name :: string
  form_email :: string
  form_phone :: string
  form_message :: string

definition ContactForm_name :: "validator list" where
  "ContactForm_name =
     [DataRequired ''Name is required'',
      Length 2 100 ''Name must be 2-100 characters'',
      on_data validate_no_sql_injection,
      on_data validate_no_xss]"

definition ContactForm_email :: "(string \<Rightarrow> bool) \<Rightarrow> validator list" where
  "ContactForm_email address_ok =
     [DataRequired ''Email is required'',
      Email address_ok ''Invalid email address'',
      on_data validate_no_sql_injection]"

definition ContactForm_phone :: "validator list" where
  "ContactForm_phone =
     [DataRequired ''Phone is required'',
      on_data validate_phone,
      on_data validate_no_sql_injection]"

definition ContactForm_message :: "validator list" where
  "ContactForm_message =
     [DataRequired ''Message is required'',
      Length 10 1000 ''Message must be 10-1000 characters'',
      on_data validate_no_sql_injection,
      on_data validate_no_xss]"

definition ContactForm_errors ::
  "(string \<Rightarrow> bool) \<Rightarrow> contact_data \<Rightarrow> (string \<times> string list) list" where
  "ContactForm_errors address_ok d =
     [(''name'', field_validate ContactForm_name (form_name d)),
      (''email'', field_validate (ContactForm_email address_ok) (form_email d)),
      (''phone'', field_validate ContactForm_phone (form_phone d)),
      (''message'', field_validate ContactForm_message (form_message d))]"

text \<open>A form is valid when no field has a message.\<close>

definition no_errors :: "(string \<times> string list) list \<Rightarrow> bool" where
  "no_errors es \<longleftrightarrow> list_all (\<lambda>(name, msgs). msgs = []) es"

text \<open>
  The reading of "all rules run, all failures are collected": every validator of the
  chain is applied to the submitted value and the messages of those that raise are
  listed in chain order.
\<close>

definition message_of :: "validator \<Rightarrow> string \<Rightarrow> string list" where
  "message_of v raw =
     (case fst (v \<lparr>data = raw, errors = []\<rparr>) of
        None \<Rightarrow> []
      | Some (ValidationError m) \<Rightarrow> [m]
      | Some (StopValidation m) \<Rightarrow> [m])"

definition collect_all :: "validator list \<Rightarrow> string \<Rightarrow> string list" where
  "collect_all validators raw = concat (map (\<lambda>v. message_of v raw) validators)"

text \<open>
  A validator is plain when it only reads the data and never raises \<open>StopValidation\<close>.
\<close>

definition plain :: "validator \<Rightarrow> bool" where
  "plain v \<longleftrightarrow> (\<exists>g. v = on_data g \<and> (\<forall>d m. g d \<noteq> Some (StopValidation m)))"

text \<open>The six fields of the two forms with their chains.\<close>

definition form_fields :: "(string \<Rightarrow> bool) \<Rightarrow> (string \<times> validator list) list" where
  "form_fields address_ok =
     [(''username'', LoginForm_username),
      (''password'', LoginForm_password),
      (''name'', ContactForm_name),
      (''email'', ContactForm_email address_ok),
      (''phone'', ContactForm_phone),
      (''message'', ContactForm_message)]"

section \<open>Records, session and requests\<close>

text \<open>
  The columns of the two tables that the handlers read or write; \<open>id\<close> of a contact and
  the \<open>created_at\<close> columns are filled in by the database and are not represented.
\<close>

record User =
  User_id :: int
  User_username :: string
  User_password :: string

record Contact =
  Contact_user_id :: int
  Contact_name :: string
  Contact_email :: string
  Contact_phone :: string
  Contact_message :: string

text \<open>
  The store: the two tables as committed, and the contacts added to the database session
  that are not committed yet.  Whether a commit fails is decided outside the program and
  is an argument of the handler: \<open>Some e\<close> is a commit that raises \<open>e\<close> and writes nothing.
  An exception other than the two of the form library is a \<open>Failure\<close> with the name of
  its class.
\<close>

record db =
  users :: "User list"
  contacts :: "Contact list"
  pending :: "Contact list"

datatype failure = Failure string

definition db_add :: "Contact \<Rightarrow> db \<Rightarrow> db" where
  "db_add c d = d\<lparr>pending := pending d @ [c]\<rparr>"

definition db_commit :: "failure option \<Rightarrow> db \<Rightarrow> failure + db" where
  "db_commit fault d =
     (case fault of
        Some e \<Rightarrow> Inl e
      | None \<Rightarrow> Inr (d\<lparr>contacts := contacts d @ pending d, pending := []\<rparr>))"

definition db_rollback :: "db \<Rightarrow> db" where
  "db_rollback d = d\<lparr>pending := []\<rparr>"

text \<open>\<open>User.query.filter_by(username=username).first()\<close>.\<close>

definition first_by_username :: "db \<Rightarrow> string \<Rightarrow> User option" where
  "first_by_username d name = find (\<lambda>u. User_username u = name) (users d)"

text \<open>
  The session is the dictionary the handlers read and write: the keys \<open>user_id\<close> and
  \<open>username\<close>, each present or absent, the \<open>permanent\<close> flag, and the queue of flashed
  notices, each a category and a message, which the web framework keeps in the session.
  \<open>session.clear()\<close> removes every key, the queue included.  The request context holds
  the session.
\<close>

record session =
  user_id :: "int option"
  username :: "string option"
  permanent :: bool
  flashes :: "(string \<times> string) list"

record ctx =
  session :: session

definition session_clear :: "ctx \<Rightarrow> ctx" where
  "session_clear cx =
     cx\<lparr>session :=
          \<lparr>user_id = None, username = None, permanent = False, flashes = []\<rparr>\<rparr>"

text \<open>\<open>flash(message, category)\<close> appends the notice to the queue in the session.\<close>

definition flash :: "string \<Rightarrow> string \<Rightarrow> ctx \<Rightarrow> ctx" where
  "flash message category cx =
     cx\<lparr>session :=
          (session cx)\<lparr>flashes := flashes (session cx) @ [(category, message)]\<rparr>\<rparr>"

text \<open>The three writes of \<open>login\<close> after a successful check.\<close>

definition sign_in :: "User \<Rightarrow> ctx \<Rightarrow> ctx" where
  "sign_in user cx =
     cx\<lparr>session :=
          (session cx)\<lparr>user_id := Some (User_id user),
                        username := Some (User_username user),
                        permanent := True\<rparr>\<rparr>"

text \<open>
  A request is a \<open>GET\<close> or a \<open>POST\<close> with its form data.  The handlers are entered after
  the anti-forgery check of the framework, which is not part of this model.  A response
  is a redirect to an endpoint, a rendered template with the form's messages, or the
  server error that an exception nobody catches turns into.
\<close>

datatype 'a request = GET | POST 'a

datatype response =
    Redirect string
  | Render string "(string \<times> string list) list"
  | ServerError failure

section \<open>Routes\<close>

text \<open>
  The password check belongs to the hashing library.  \<open>check_password_hash\<close> hashes the
  submitted password with the stored text as salt and compares the result with the stored
  text; the hashing raises \<open>ValueError\<close> (\<open>Invalid salt\<close>) when the stored text is not in
  the \<open>$\<close>-separated format of the library's hashes, and the check does not catch it.
  That much is written out: a stored text without any \<open>$\<close> raises.  Whatever the library
  does with every other stored text is the parameter \<open>verify\<close>.
\<close>

definition check_password_hash ::
  "(string \<Rightarrow> string \<Rightarrow> failure + bool) \<Rightarrow> string \<Rightarrow> string \<Rightarrow> failure + bool" where
  "check_password_hash verify pw_hash password =
     (if CHR ''$'' \<notin> set pw_hash then Inl (Failure ''ValueError'')
      else verify pw_hash password)"

definition index :: response where
  "index = Redirect ''login''"

text \<open>
  \<open>login\<close>, for any password check \<open>check\<close> that, given the stored hash and the
  submitted password, returns a truth value or raises.  The route has no handler for
  exceptions, so a raise becomes a server error, and nothing of the context has been
  changed by then.
\<close>

definition login ::
  "(string \<Rightarrow> string \<Rightarrow> failure + bool) \<Rightarrow> db \<Rightarrow> login_data request \<Rightarrow> ctx
     \<Rightarrow> response \<times> ctx" where
  "login check d req cx =
     (case req of
        GET \<Rightarrow> (Render ''login.html'' [], cx)
      | POST form \<Rightarrow>
          if no_errors (LoginForm_errors form) then
            let username_v = strip (form_username form);
                password_v = form_password form;
                invalid = (Redirect ''login'', flash ''Invalid credentials'' ''error'' cx)
            in case first_by_username d username_v of
                 None \<Rightarrow> invalid
               | Some user \<Rightarrow>
                   (case check (User_password user) password_v of
                      Inl e \<Rightarrow> (ServerError e, cx)
                    | Inr False \<Rightarrow> invalid
                    | Inr True \<Rightarrow>
                        (Redirect ''contact'',
                         flash ''Login successful'' ''success''
                           (sign_in user (session_clear cx))))
          else (Render ''login.html'' (LoginForm_errors form), cx))"

text \<open>\<open>contact\<close>.\<close>

definition contact ::
  "(string \<Rightarrow> bool) \<Rightarrow> failure option \<Rightarrow> db \<Rightarrow> contact_data request \<Rightarrow> ctx
     \<Rightarrow> response \<times> ctx \<times> db" where
  "contact address_ok fault d req cx =
     (case user_id (session cx) of
        None \<Rightarrow> (Redirect ''login'', flash ''Please login first'' ''error'' cx, d)
      | Some uid \<Rightarrow>
          (case req of
             GET \<Rightarrow> (Render ''contact.html'' [], cx, d)
           | POST form \<Rightarrow>
               if no_errors (ContactForm_errors address_ok form) then
                 let new_contact =
                       \<lparr>Contact_user_id = uid,
                        Contact_name = strip (form_name form),
                        Contact_email = strip (form_email form),
                        Contact_phone = strip (form_phone form),
                        Contact_message = strip (form_message form)\<rparr>
                 in case db_commit fault (db_add new_contact d) of
                      Inr d' \<Rightarrow>
                        (Redirect ''contact'',
                         flash ''Contact message submitted successfully'' ''success'' cx, d')
                    | Inl e \<Rightarrow>
                        (Redirect ''contact'',
                         flash ''An error occurred. Please try again'' ''error'' cx,
                         db_rollback (db_add new_contact d))
               else (Render ''contact.html'' (ContactForm_errors address_ok form), cx, d)))"

text \<open>\<open>logout\<close>.\<close>

definition logout :: "ctx \<Rightarrow> response \<times> ctx" where
  "logout cx =
     (Redirect ''login'', flash ''You have been logged out'' ''success'' (session_clear cx))"

section \<open>Sample data\<close>

text \<open>
  A store with the first seeded user, a second user whose stored password is not a hash,
  a session before and after login, and stand-ins for the two library checks, used to
  run the handlers on concrete requests.
\<close>

definition ahmed :: User where
  "ahmed = \<lparr>User_id = 1, User_username = ''Ahmed'',
            User_password = ''$2b$12$stored.hash.of.ahmed123''\<rparr>"

definition legacy_user :: User where
  "legacy_user = \<lparr>User_id = 7, User_username = ''Legacy'', User_password = ''plaintext''\<rparr>"

definition sample_db :: db where
  "sample_db = \<lparr>users = [ahmed, legacy_user], contacts = [], pending = []\<rparr>"

definition anonymous :: ctx where
  "anonymous =
     \<lparr>session =
        \<lparr>user_id = None, username = None, permanent = False, flashes = []\<rparr>\<rparr>"

definition signed_in :: ctx where
  "signed_in =
     \<lparr>session =
        \<lparr>user_id = Some 1, username = Some ''Ahmed'', permanent = True, flashes = []\<rparr>\<rparr>"

definition sample_verify :: "string \<Rightarrow> string \<Rightarrow> failure + bool" where
  "sample_verify pw_hash password = Inr (password = ''ahmed123'')"

definition sample_address_ok :: "string \<Rightarrow> bool" where
  "sample_address_ok s \<longleftrightarrow> CHR ''@'' \<in> set s"


definition sample_contact :: contact_data where
  "sample_contact =
     \<lparr>form_name = ''John Doe'', form_email = ''john@example.com'',
      form_phone = ''+1234567890'',
      form_message = ''Please call me back.''\<rparr>"

section \<open>Properties\<close>

subsection \<open>Occurrences and the two blacklist loops\<close>

lemma str_in_iff: "str_in k s \<longleftrightarrow> (\<exists>ps ss. s = ps @ k @ ss)"
proof (induction s)
  case Nil
  then show ?case by auto
next
  case (Cons c cs)
  have "take (length k) (c # cs) = k \<longleftrightarrow> (\<exists>ss. c # cs = k @ ss)"
    by (metis append_eq_conv_conj)
  moreover have "(\<exists>ps ss. c # cs = ps @ k @ ss)
      \<longleftrightarrow> (\<exists>ss. c # cs = k @ ss) \<or> (\<exists>ps ss. cs = ps @ k @ ss)"
  proof
    assume "\<exists>ps ss. c # cs = ps @ k @ ss"
    then obtain ps ss where eq: "c # cs = ps @ k @ ss" by blast
    show "(\<exists>ss. c # cs = k @ ss) \<or> (\<exists>ps ss. cs = ps @ k @ ss)"
    proof (cases ps)
      case Nil
      with eq show ?thesis by auto
    next
      case (Cons p ps')
      with eq have "cs = ps' @ k @ ss" by simp
      then show ?thesis by blast
    qed
  next
    assume "(\<exists>ss. c # cs = k @ ss) \<or> (\<exists>ps ss. cs = ps @ k @ ss)"
    then show "\<exists>ps ss. c # cs = ps @ k @ ss"
    proof
      assume "\<exists>ss. c # cs = k @ ss"
      then obtain ss where "c # cs = [] @ k @ ss" by auto
      then show ?thesis by blast
    next
      assume "\<exists>ps ss. cs = ps @ k @ ss"
      then obtain ps ss where "cs = ps @ k @ ss" by blast
      then have "c # cs = (c # ps) @ k @ ss" by simp
      then show ?thesis by blast
    qed
  qed
  ultimately show ?case using Cons.IH by simp
qed

lemma str_in_lower_iff: "str_in (lower k) (lower s) \<longleftrightarrow> occurs_ignoring_case k s"
proof
  assume "str_in (lower k) (lower s)"
  then obtain ps ss where eq: "lower s = ps @ lower k @ ss"
    by (auto simp: str_in_iff)
  let ?n = "length ps" and ?m = "length k"
  have len: "length (lower s) = length s" "length (lower k) = length k"
    by (simp_all add: lower_def)
  have split: "s = take ?n s @ take ?m (drop ?n s) @ drop ?m (drop ?n s)"
    by (metis append_take_drop_id)
  have "lower (take ?m (drop ?n s)) = take ?m (drop ?n (lower s))"
    by (simp add: lower_def take_map drop_map)
  also have "\<dots> = lower k"
    using len by (simp add: eq)
  finally show "occurs_ignoring_case k s"
    unfolding occurs_ignoring_case_def using split by blast
next
  assume "occurs_ignoring_case k s"
  then obtain ps t ss where "s = ps @ t @ ss" "lower t = lower k"
    unfolding occurs_ignoring_case_def by blast
  then have "lower s = lower ps @ lower k @ lower ss"
    by (simp add: lower_def)
  then show "str_in (lower k) (lower s)"
    unfolding str_in_iff by blast
qed

lemma xss_loop_result:
  "xss_loop ks d =
     (if \<exists>k\<in>set ks. str_in k d
      then Some (ValidationError ''Invalid HTML or script content detected'')
      else None)"
  by (induction ks) auto

lemma dangerous_chars_lower: "k \<in> set dangerous_chars \<Longrightarrow> lower k = k"
  by (auto simp: dangerous_chars_def lower_def lower_char_def ascii_uppercase_def
      ascii_lowercase_def latin1_uppercase_def latin1_lowercase_def)

lemma sql_loop_no_stop: "sql_loop ks d \<noteq> Some (StopValidation m)"
  by (induction ks) auto

lemma xss_loop_no_stop: "xss_loop ks d \<noteq> Some (StopValidation m)"
  by (induction ks) auto

subsection \<open>The bounded keyword search\<close>

lemma match_bounded_here_iff:
  assumes "kw \<noteq> []"
  shows "match_bounded_here kw prev s \<longleftrightarrow>
     (\<exists>ss. s = kw @ ss \<and> boundary prev (Some (hd kw)) \<and>
           boundary (Some (last kw)) (head_opt ss))"
proof
  assume m: "match_bounded_here kw prev s"
  then have t: "take (length kw) s = kw"
    by (simp add: match_bounded_here_def split: if_splits)
  then have s: "s = kw @ drop (length kw) s"
    by (metis append_take_drop_id)
  with assms have "head_opt s = Some (hd kw)"
    by (cases kw) (auto simp: head_opt_def split: list.splits)
  with m t assms s show "\<exists>ss. s = kw @ ss \<and> boundary prev (Some (hd kw)) \<and>
      boundary (Some (last kw)) (head_opt ss)"
    by (auto simp: match_bounded_here_def)
next
  assume "\<exists>ss. s = kw @ ss \<and> boundary prev (Some (hd kw)) \<and>
      boundary (Some (last kw)) (head_opt ss)"
  then obtain ss where s: "s = kw @ ss" and b1: "boundary prev (Some (hd kw))"
    and b2: "boundary (Some (last kw)) (head_opt ss)" by blast
  from s assms have "head_opt s = Some (hd kw)"
    by (cases kw) (auto simp: head_opt_def)
  with s b1 b2 assms show "match_bounded_here kw prev s"
    by (simp add: match_bounded_here_def)
qed

text \<open>
  The search finds a non-empty keyword exactly where the keyword occurs with a word
  boundary in front of its first character and one behind its last.
\<close>

lemma search_bounded_from_iff:
  assumes "kw \<noteq> []"
  shows "search_bounded_from kw prev s \<longleftrightarrow>
     (\<exists>ps ss. s = ps @ kw @ ss \<and>
        boundary (if ps = [] then prev else Some (last ps)) (Some (hd kw)) \<and>
        boundary (Some (last kw)) (head_opt ss))"
proof (induction s arbitrary: prev)
  case Nil
  with assms show ?case
    by (simp add: match_bounded_here_iff)
next
  case (Cons c cs)
  let ?R = "\<lambda>prev ps ss. boundary (if ps = [] then prev else Some (last ps)) (Some (hd kw)) \<and>
        boundary (Some (last kw)) (head_opt ss)"
  have "(\<exists>ps ss. c # cs = ps @ kw @ ss \<and> ?R prev ps ss) \<longleftrightarrow>
        (\<exists>ss. c # cs = kw @ ss \<and> ?R prev [] ss) \<or>
        (\<exists>ps ss. cs = ps @ kw @ ss \<and> ?R (Some c) ps ss)"
  proof
    assume "\<exists>ps ss. c # cs = ps @ kw @ ss \<and> ?R prev ps ss"
    then obtain ps ss where eq: "c # cs = ps @ kw @ ss" and r: "?R prev ps ss" by blast
    show "(\<exists>ss. c # cs = kw @ ss \<and> ?R prev [] ss) \<or>
        (\<exists>ps ss. cs = ps @ kw @ ss \<and> ?R (Some c) ps ss)"
    proof (cases ps)
      case Nil
      with eq r show ?thesis by auto
    next
      case (Cons p ps')
      with eq have "cs = ps' @ kw @ ss" "p = c" by simp_all
      moreover from r Cons \<open>p = c\<close> have "?R (Some c) ps' ss" by (cases "ps' = []") simp_all
      ultimately show ?thesis by blast
    qed
  next
    assume "(\<exists>ss. c # cs = kw @ ss \<and> ?R prev [] ss) \<or>
        (\<exists>ps ss. cs = ps @ kw @ ss \<and> ?R (Some c) ps ss)"
    then show "\<exists>ps ss. c # cs = ps @ kw @ ss \<and> ?R prev ps ss"
    proof
      assume "\<exists>ss. c # cs = kw @ ss \<and> ?R prev [] ss"
      then obtain ss where "c # cs = [] @ kw @ ss \<and> ?R prev [] ss" by auto
      then show ?thesis by blast
    next
      assume "\<exists>ps ss. cs = ps @ kw @ ss \<and> ?R (Some c) ps ss"
      then obtain ps ss where eq: "cs = ps @ kw @ ss" and r: "?R (Some c) ps ss" by blast
      from eq have "c # cs = (c # ps) @ kw @ ss" by simp
      moreover from r have "?R prev (c # ps) ss" by (cases "ps = []") simp_all
      ultimately show ?thesis by blast
    qed
  qed
  with Cons.IH [of "Some c"] assms show ?case
    by (simp add: match_bounded_here_iff)
qed

text \<open>
  Upper-cased data has no lower-case ASCII letter, so a keyword that starts with one is
  never found in it.
\<close>

lemma upper_char_not_lower: "l \<in> set ascii_lowercase \<Longrightarrow> Cp l \<notin> set (upper_char c)"
  by (auto simp: upper_char_def ascii_lowercase_def ascii_uppercase_def
      latin1_lowercase_def latin1_uppercase_def)

lemma lower_keyword_never_found:
  assumes "kw \<noteq> []" and "hd kw \<in> set ascii_lowercase"
  shows "\<not> re_search_bounded kw (upper s)"
proof
  assume "re_search_bounded kw (upper s)"
  then obtain ps ss where "upper s = ps @ map Cp kw @ ss"
    using assms(1) by (auto simp: re_search_bounded_def search_bounded_from_iff)
  with assms(1) have "Cp (hd kw) \<in> set (upper s)"
    by (cases kw) auto
  then obtain c where "Cp (hd kw) \<in> set (upper_char c)"
    by (auto simp: upper_def)
  with assms(2) upper_char_not_lower show False by blast
qed

lemma sql_loop_result:
  "sql_loop ks d =
     (if \<exists>k\<in>set ks. re_search_bounded k d
      then Some (ValidationError ''Invalid characters or keywords detected'')
      else None)"
  by (induction ks) auto

text \<open>
  A keyword that starts and ends with a word character is found as a whole word: no word
  character next to it on either side.  A keyword that starts and ends with punctuation
  is found only with a word character directly on both sides.
\<close>

lemma word_opt_head: "word_opt (head_opt ss) \<longleftrightarrow> ss \<noteq> [] \<and> is_word_point (hd ss)"
  by (cases ss) (simp_all add: head_opt_def)

lemma word_keyword_search:
  assumes "kw \<noteq> []" and "is_word (hd kw)" and "is_word (last kw)"
  shows "re_search_bounded kw s \<longleftrightarrow>
     (\<exists>ps ss. s = ps @ map Cp kw @ ss \<and> (ps = [] \<or> \<not> is_word_point (last ps)) \<and>
        (ss = [] \<or> \<not> is_word_point (hd ss)))"
proof -
  have ends: "hd (map Cp kw) = Cp (hd kw)" "last (map Cp kw) = Cp (last kw)"
    using assms(1) by (simp_all add: hd_map last_map)
  have "\<And>ps ss.
      (boundary (if ps = [] then None else Some (last ps)) (Some (Cp (hd kw))) \<and>
       boundary (Some (Cp (last kw))) (head_opt ss)) \<longleftrightarrow>
      ((ps = [] \<or> \<not> is_word_point (last ps)) \<and> (ss = [] \<or> \<not> is_word_point (hd ss)))"
    using assms(2,3) by (auto simp: boundary_def word_opt_head)
  then show ?thesis
    using assms(1) by (simp add: re_search_bounded_def search_bounded_from_iff ends)
qed

lemma punctuation_keyword_search:
  assumes "kw \<noteq> []" and "\<not> is_word (hd kw)" and "\<not> is_word (last kw)"
  shows "re_search_bounded kw s \<longleftrightarrow>
     (\<exists>ps ss. s = ps @ map Cp kw @ ss \<and> ps \<noteq> [] \<and> is_word_point (last ps) \<and>
        ss \<noteq> [] \<and> is_word_point (hd ss))"
proof -
  have ends: "hd (map Cp kw) = Cp (hd kw)" "last (map Cp kw) = Cp (last kw)"
    using assms(1) by (simp_all add: hd_map last_map)
  have "\<And>ps ss.
      (boundary (if ps = [] then None else Some (last ps)) (Some (Cp (hd kw))) \<and>
       boundary (Some (Cp (last kw))) (head_opt ss)) \<longleftrightarrow>
      (ps \<noteq> [] \<and> is_word_point (last ps) \<and> ss \<noteq> [] \<and> is_word_point (hd ss))"
    using assms(2,3) by (auto simp: boundary_def word_opt_head)
  then show ?thesis
    using assms(1) by (simp add: re_search_bounded_def search_bounded_from_iff ends)
qed

lemma validate_no_sql_injection_result:
  "validate_no_sql_injection raw =
     (if \<exists>k\<in>set sql_keywords. re_search_bounded k (upper raw)
      then Some (ValidationError ''Invalid characters or keywords detected'')
      else None)"
  by (simp add: validate_no_sql_injection_def sql_loop_result)

subsection \<open>Validator chains\<close>

lemma plainI: "(\<And>d m. g d \<noteq> Some (StopValidation m)) \<Longrightarrow> plain (on_data g)"
  unfolding plain_def by blast

lemma plain_sql: "plain (on_data validate_no_sql_injection)"
  by (rule plainI) (simp add: validate_no_sql_injection_def sql_loop_no_stop)

lemma plain_xss: "plain (on_data validate_no_xss)"
  by (rule plainI) (simp add: validate_no_xss_def xss_loop_no_stop)

lemma plain_phone: "plain (on_data validate_phone)"
  by (rule plainI) (simp add: validate_phone_def)

lemma plain_Length: "plain (Length a b m)"
proof -
  let ?g = "\<lambda>d. if a \<le> int (length d) \<and> (b = - 1 \<or> int (length d) \<le> b)
      then None else Some (ValidationError m)"
  have "Length a b m = on_data ?g"
    by (rule ext) (simp add: Length_def on_data_def Let_def)
  moreover have "plain (on_data ?g)"
    by (rule plainI) simp
  ultimately show ?thesis by simp
qed

lemma plain_Email: "plain (Email ok m)"
proof -
  let ?g = "\<lambda>d. if ok d then None else Some (ValidationError m)"
  have "Email ok m = on_data ?g"
    by (rule ext) (simp add: Email_def on_data_def)
  moreover have "plain (on_data ?g)"
    by (rule plainI) simp
  ultimately show ?thesis by simp
qed

lemmas plain_facts = plain_sql plain_xss plain_phone plain_Length plain_Email

text \<open>A chain of plain validators runs to its end and collects every message.\<close>

lemma run_chain_plain:
  "list_all plain vs \<Longrightarrow>
   run_validation_chain vs f =
     (False, f\<lparr>errors := errors f @ collect_all vs (data f)\<rparr>)"
proof (induction vs arbitrary: f)
  case Nil
  then show ?case by (simp add: collect_all_def)
next
  case (Cons v vs)
  then obtain g where g: "v = on_data g" "\<And>d m. g d \<noteq> Some (StopValidation m)"
    unfolding plain_def by auto
  have rest: "list_all plain vs" using Cons.prems by simp
  show ?case
  proof (cases "g (data f)")
    case None
    then show ?thesis
      using Cons.IH [OF rest] g
      by (simp add: on_data_def collect_all_def message_of_def)
  next
    case (Some e)
    then obtain m where e: "e = ValidationError m"
      using g(2) by (cases e) auto
    show ?thesis
      using Cons.IH [OF rest, of "f\<lparr>errors := errors f @ [m]\<rparr>"] g Some e
      by (simp add: on_data_def collect_all_def message_of_def)
  qed
qed

lemma strip_Nil: "strip [] = []"
  by (simp add: strip_def)

lemma field_validate_required:
  assumes "list_all plain rest" and "msg \<noteq> []"
  shows "field_validate (DataRequired msg # rest) raw =
     (if strip raw = [] then [msg] else collect_all (DataRequired msg # rest) raw)"
proof (cases "strip raw = []")
  case True
  with assms(2) show ?thesis
    by (auto simp: field_validate_def DataRequired_def)
next
  case False
  then have "raw \<noteq> []" using strip_Nil by auto
  with False show ?thesis
    using run_chain_plain [OF assms(1), of "\<lparr>data = raw, errors = []\<rparr>"]
    by (simp add: field_validate_def DataRequired_def collect_all_def message_of_def)
qed

lemma required_chain:
  assumes "chain = DataRequired msg # rest" and "list_all plain rest" and "msg \<noteq> []"
  shows "\<exists>msg rest. chain = DataRequired msg # rest \<and>
           field_validate chain raw =
             (if strip raw = [] then [msg] else collect_all chain raw)"
  using field_validate_required [OF assms(2,3)] assms(1) by blast

subsection \<open>The two routes\<close>



lemma login_invalid:
  assumes "no_errors (LoginForm_errors form)"
    and "first_by_username d (strip (form_username form)) = None \<or>
         (\<exists>u. first_by_username d (strip (form_username form)) = Some u \<and>
              chk (User_password u) (form_password form) = Inr False)"
  shows "login chk d (POST form) cx =
           (Redirect ''login'', flash ''Invalid credentials'' ''error'' cx)"
  using assms by (auto simp: login_def Let_def)

lemma login_raises:
  assumes "no_errors (LoginForm_errors form)"
    and "first_by_username d (strip (form_username form)) = Some u"
    and "chk (User_password u) (form_password form) = Inl e"
  shows "login chk d (POST form) cx = (ServerError e, cx)"
  using assms by (simp add: login_def Let_def)


lemma login_success_session:
  assumes "login chk d req cx = (Redirect ''contact'', cx')"
  shows "\<exists>u\<in>set (users d).
           session cx' =
             \<lparr>user_id = Some (User_id u), username = Some (User_username u),
              permanent = True, flashes = [(''success'', ''Login successful'')]\<rparr>"
proof (cases req)
  case GET
  with assms show ?thesis by (simp add: login_def)
next
  case (POST form)
  show ?thesis
  proof (cases "first_by_username d (strip (form_username form))")
    case None
    with assms POST show ?thesis
      by (simp add: login_def Let_def split: if_splits)
  next
    case (Some u)
    then have "u \<in> set (users d)"
      by (auto simp: first_by_username_def find_Some_iff)
    with assms POST Some show ?thesis
      by (auto simp: login_def Let_def flash_def session_clear_def sign_in_def
          split: if_splits sum.splits bool.splits)
  qed
qed


lemma contact_accepts:
  assumes "user_id (session cx) = Some uid"
    and "no_errors (ContactForm_errors address_ok form)"
  shows "contact address_ok None d (POST form) cx =
           (Redirect ''contact'',
            flash ''Contact message submitted successfully'' ''success'' cx,
            d\<lparr>contacts := contacts d @ pending d @
                 [\<lparr>Contact_user_id = uid,
                   Contact_name = strip (form_name form),
                   Contact_email = strip (form_email form),
                   Contact_phone = strip (form_phone form),
                   Contact_message = strip (form_message form)\<rparr>],
               pending := []\<rparr>)"
  using assms by (simp add: contact_def Let_def db_commit_def db_add_def)


subsection \<open>The sample data\<close>

lemma sample_contact_valid:
  "no_errors (ContactForm_errors sample_address_ok sample_contact)"
  by code_simp


lemma signed_in_user: "user_id (session signed_in) = Some 1"
  by (simp add: signed_in_def)

lemma anonymous_user: "user_id (session anonymous) = None"
  by (simp add: anonymous_def)

section \<open>The claims\<close>

text \<open>
  C1. \<open>validate_no_sql_injection\<close> is meant to reject every value in which a blacklisted
  token stands as a whole word or as an exact sequence.  The code wraps every keyword in
  \<open>\b\<close>, which for a keyword made of punctuation asks for a word character on both sides,
  and it compares the lower-case keywords \<open>xp_\<close> and \<open>sp_\<close> with upper-cased data.  So a
  comment marker after a quote, a bare block comment and the two procedure prefixes all
  pass.
\<close>

theorem special_sequences_pass:
  "validate_no_sql_injection ''admin'; --'' = None \<and>
   validate_no_sql_injection ''/* x */'' = None \<and>
   validate_no_sql_injection ''xp_'' = None \<and>
   validate_no_sql_injection ''sp_'' = None"
  by code_simp

text \<open>
  C2. A request to \<open>contact\<close> whose session holds no \<open>user_id\<close> is answered with a
  redirect to \<open>login\<close> and the notice \<open>Please login first\<close>, and the store is returned as
  it was.  A session left by a successful login holds the id of a stored user, the guard
  lets every request with it through, and a valid submission is stored under that id.
\<close>

theorem contact_requires_login:
  "(user_id (session cx) = None \<longrightarrow>
      contact address_ok fault d req cx =
        (Redirect ''login'', flash ''Please login first'' ''error'' cx, d)) \<and>
   (login chk d lreq cx0 = (Redirect ''contact'', cx1) \<longrightarrow>
      (\<exists>u\<in>set (users d).
         user_id (session cx1) = Some (User_id u) \<and>
         fst (contact address_ok fault d' req cx1) \<noteq> Redirect ''login'' \<and>
         (no_errors (ContactForm_errors address_ok cf) \<longrightarrow>
            contact address_ok None d' (POST cf) cx1 =
              (Redirect ''contact'',
               flash ''Contact message submitted successfully'' ''success'' cx1,
               d'\<lparr>contacts := contacts d' @ pending d' @
                    [\<lparr>Contact_user_id = User_id u,
                      Contact_name = strip (form_name cf),
                      Contact_email = strip (form_email cf),
                      Contact_phone = strip (form_phone cf),
                      Contact_message = strip (form_message cf)\<rparr>],
                  pending := []\<rparr>))))"
proof (intro conjI impI)
  assume "user_id (session cx) = None"
  then show "contact address_ok fault d req cx =
      (Redirect ''login'', flash ''Please login first'' ''error'' cx, d)"
    by (simp add: contact_def)
next
  assume "login chk d lreq cx0 = (Redirect ''contact'', cx1)"
  then obtain u where u: "u \<in> set (users d)"
    and s: "session cx1 =
        \<lparr>user_id = Some (User_id u), username = Some (User_username u), permanent = True,
         flashes = [(''success'', ''Login successful'')]\<rparr>"
    using login_success_session by blast
  have uid: "user_id (session cx1) = Some (User_id u)"
    using s by simp
  have pass: "fst (contact address_ok fault d' req cx1) \<noteq> Redirect ''login''"
    using uid
    by (cases req; cases fault)
      (simp_all add: contact_def Let_def db_commit_def split: if_splits)
  show "\<exists>u\<in>set (users d).
         user_id (session cx1) = Some (User_id u) \<and>
         fst (contact address_ok fault d' req cx1) \<noteq> Redirect ''login'' \<and>
         (no_errors (ContactForm_errors address_ok cf) \<longrightarrow>
            contact address_ok None d' (POST cf) cx1 =
              (Redirect ''contact'',
               flash ''Contact message submitted successfully'' ''success'' cx1,
               d'\<lparr>contacts := contacts d' @ pending d' @
                    [\<lparr>Contact_user_id = User_id u,
                      Contact_name = strip (form_name cf),
                      Contact_email = strip (form_email cf),
                      Contact_phone = strip (form_phone cf),
                      Contact_message = strip (form_message cf)\<rparr>],
                  pending := []\<rparr>))"
    using u uid pass contact_accepts [OF uid] by blast
qed

text \<open>
  The guard at work: the anonymous session is turned away with the store untouched; after
  Ahmed has logged in, the same submission is stored under his id.
\<close>

theorem contact_requires_login_witness:
  "contact sample_address_ok None sample_db (POST sample_contact) anonymous =
     (Redirect ''login'', flash ''Please login first'' ''error'' anonymous, sample_db) \<and>
   fst (login sample_verify sample_db
       (POST \<lparr>form_username = ''Ahmed'', form_password = ''ahmed123''\<rparr>) anonymous) =
     Redirect ''contact'' \<and>
   contacts (snd (snd (contact sample_address_ok None sample_db (POST sample_contact)
       (snd (login sample_verify sample_db
          (POST \<lparr>form_username = ''Ahmed'', form_password = ''ahmed123''\<rparr>) anonymous))))) =
     [\<lparr>Contact_user_id = 1, Contact_name = ''John Doe'',
       Contact_email = ''john@example.com'', Contact_phone = ''+1234567890'',
       Contact_message = ''Please call me back.''\<rparr>]"
proof -
  let ?lreq = "POST \<lparr>form_username = ''Ahmed'', form_password = ''ahmed123''\<rparr>"
  let ?cx1 = "snd (login sample_verify sample_db ?lreq anonymous)"
  have ok: "fst (login sample_verify sample_db ?lreq anonymous) = Redirect ''contact''"
    by code_simp
  then have l: "login sample_verify sample_db ?lreq anonymous = (Redirect ''contact'', ?cx1)"
    by (metis prod.collapse)
  have id1: "user_id (session ?cx1) = Some 1"
    by code_simp
  have strips: "strip (form_name sample_contact) = ''John Doe''"
    "strip (form_email sample_contact) = ''john@example.com''"
    "strip (form_phone sample_contact) = ''+1234567890''"
    "strip (form_message sample_contact) = ''Please call me back.''"
    by code_simp+
  note inst = contact_requires_login
    [where cx = anonymous and address_ok = sample_address_ok and fault = None
       and d = sample_db and req = "POST sample_contact" and chk = sample_verify
       and lreq = ?lreq and ?cx0.0 = anonymous and ?cx1.0 = ?cx1 and d' = sample_db
       and cf = sample_contact]
  from inst anonymous_user
  have reject: "contact sample_address_ok None sample_db (POST sample_contact) anonymous =
      (Redirect ''login'', flash ''Please login first'' ''error'' anonymous, sample_db)"
    by blast
  from inst l sample_contact_valid id1 strips
  have "contacts (snd (snd (contact sample_address_ok None sample_db (POST sample_contact)
      ?cx1))) =
     contacts sample_db @ pending sample_db @
     [\<lparr>Contact_user_id = 1, Contact_name = ''John Doe'',
       Contact_email = ''john@example.com'', Contact_phone = ''+1234567890'',
       Contact_message = ''Please call me back.''\<rparr>]"
    by auto
  then have stored: "contacts (snd (snd (contact sample_address_ok None sample_db
      (POST sample_contact) ?cx1))) =
     [\<lparr>Contact_user_id = 1, Contact_name = ''John Doe'',
       Contact_email = ''john@example.com'', Contact_phone = ''+1234567890'',
       Contact_message = ''Please call me back.''\<rparr>]"
    by (simp add: sample_db_def)
  from reject ok stored show ?thesis by simp
qed




text \<open>
  C4. The password check returns a truth value only where the hashing library does.  When
  the form has validated and the user is found, a stored password without the separators
  of the hash format makes the check raise, and the route turns that into a server error
  with the context as it was; a check that returns false gives the redirect to \<open>login\<close>
  with the notice \<open>Invalid credentials\<close>.
\<close>

theorem login_verification_outcomes:
  assumes "no_errors (LoginForm_errors form)"
    and "first_by_username d (strip (form_username form)) = Some u"
  shows "(CHR ''$'' \<notin> set (User_password u) \<longrightarrow>
            login (check_password_hash verify) d (POST form) cx =
              (ServerError (Failure ''ValueError''), cx)) \<and>
         (check_password_hash verify (User_password u) (form_password form) = Inr False \<longrightarrow>
            login (check_password_hash verify) d (POST form) cx =
              (Redirect ''login'', flash ''Invalid credentials'' ''error'' cx))"
  using assms by (simp add: login_def Let_def check_password_hash_def)

text \<open>
  Both outcomes on the sample store: the user whose stored password is plain text, and
  Ahmed with a wrong password.
\<close>

theorem login_verification_outcomes_witness:
  "login (check_password_hash sample_verify) sample_db
       (POST \<lparr>form_username = ''Legacy'', form_password = ''legacy-pw''\<rparr>) signed_in =
     (ServerError (Failure ''ValueError''), signed_in) \<and>
   login (check_password_hash sample_verify) sample_db
       (POST \<lparr>form_username = ''Ahmed'', form_password = ''wrong-password''\<rparr>) anonymous =
     (Redirect ''login'', flash ''Invalid credentials'' ''error'' anonymous)"
proof -
  let ?f1 = "\<lparr>form_username = ''Legacy'', form_password = ''legacy-pw''\<rparr>"
  let ?f2 = "\<lparr>form_username = ''Ahmed'', form_password = ''wrong-password''\<rparr>"
  have v1: "no_errors (LoginForm_errors ?f1)" by code_simp
  have u1: "first_by_username sample_db (strip (form_username ?f1)) = Some legacy_user"
    by code_simp
  have malformed: "CHR ''$'' \<notin> set (User_password legacy_user)"
    by code_simp
  have v2: "no_errors (LoginForm_errors ?f2)" by code_simp
  have u2: "first_by_username sample_db (strip (form_username ?f2)) = Some ahmed"
    by code_simp
  have wrong: "check_password_hash sample_verify (User_password ahmed) (form_password ?f2) =
      Inr False"
    by code_simp
  from login_verification_outcomes
    [where verify = sample_verify and cx = signed_in, OF v1 u1] malformed
  have a: "login (check_password_hash sample_verify) sample_db (POST ?f1) signed_in =
      (ServerError (Failure ''ValueError''), signed_in)"
    by blast
  from login_verification_outcomes
    [where verify = sample_verify and cx = anonymous, OF v2 u2] wrong
  have b: "login (check_password_hash sample_verify) sample_db (POST ?f2) anonymous =
      (Redirect ''login'', flash ''Invalid credentials'' ''error'' anonymous)"
    by blast
  from a b show ?thesis by simp
qed

text \<open>
  The check does not return false for every stored text, and a login against such a user
  does not end in the notice: for the stored text \<open>plaintext\<close> the check raises, and the
  response is the server error.
\<close>

theorem malformed_hash_server_error:
  "check_password_hash sample_verify ''plaintext'' ''secret1'' = Inl (Failure ''ValueError'') \<and>
   login (check_password_hash sample_verify) sample_db
       (POST \<lparr>form_username = ''Legacy'', form_password = ''secret1''\<rparr>) anonymous =
     (ServerError (Failure ''ValueError''), anonymous)"
  by code_simp

text \<open>
  C5. \<open>validate_no_xss\<close> rejects a value exactly when one of the eight blacklisted markup
  texts occurs in it in some letter case, and returns normally for every other value.
\<close>

theorem validate_no_xss_iff:
  "validate_no_xss s =
     (if \<exists>k\<in>set dangerous_chars. occurs_ignoring_case k s
      then Some (ValidationError ''Invalid HTML or script content detected'')
      else None)"
proof -
  have "(\<exists>k\<in>set dangerous_chars. str_in k (lower s))
      \<longleftrightarrow> (\<exists>k\<in>set dangerous_chars. occurs_ignoring_case k s)"
    using str_in_lower_iff dangerous_chars_lower by (metis (no_types, lifting))
  then show ?thesis
    by (simp add: validate_no_xss_def xss_loop_result)
qed

text \<open>An image tag in capitals is rejected; a harmless name is not.\<close>

theorem validate_no_xss_iff_witness:
  "(\<exists>k\<in>set dangerous_chars. occurs_ignoring_case k ''<IMG src=x>'') \<and>
   validate_no_xss ''<IMG src=x>'' =
     Some (ValidationError ''Invalid HTML or script content detected'') \<and>
   validate_no_xss ''John Doe'' = None"
proof -
  have "validate_no_xss ''<IMG src=x>'' =
      Some (ValidationError ''Invalid HTML or script content detected'')"
    "validate_no_xss ''John Doe'' = None"
    by code_simp+
  with validate_no_xss_iff [of "''<IMG src=x>''"] show ?thesis
    by (simp split: if_splits)
qed

text \<open>
  C6. Take two login submissions that pass validation, one for a user name that is not
  in the store and one for a stored user.  When the password check of the second returns
  false, both get the same response and leave the same context: the redirect to \<open>login\<close>
  and the notice \<open>Invalid credentials\<close>.  When the password check raises, the route does
  not catch it: the second submission ends in a server error, and the two responses
  differ.
\<close>

theorem failed_logins_compared:
  assumes "no_errors (LoginForm_errors f1)" and "no_errors (LoginForm_errors f2)"
    and "first_by_username d (strip (form_username f1)) = None"
    and "first_by_username d (strip (form_username f2)) = Some u"
  shows "(chk (User_password u) (form_password f2) = Inr False \<longrightarrow>
            login chk d (POST f1) cx = login chk d (POST f2) cx \<and>
            login chk d (POST f2) cx =
              (Redirect ''login'', flash ''Invalid credentials'' ''error'' cx)) \<and>
         (chk (User_password u) (form_password f2) = Inl e \<longrightarrow>
            login chk d (POST f1) cx =
              (Redirect ''login'', flash ''Invalid credentials'' ''error'' cx) \<and>
            login chk d (POST f2) cx = (ServerError e, cx) \<and>
            fst (login chk d (POST f1) cx) \<noteq> fst (login chk d (POST f2) cx))"
proof (intro conjI impI)
  assume "chk (User_password u) (form_password f2) = Inr False"
  with assms show "login chk d (POST f1) cx = login chk d (POST f2) cx"
    and "login chk d (POST f2) cx =
      (Redirect ''login'', flash ''Invalid credentials'' ''error'' cx)"
    by (simp_all add: login_invalid)
next
  assume r: "chk (User_password u) (form_password f2) = Inl e"
  show 1: "login chk d (POST f1) cx =
      (Redirect ''login'', flash ''Invalid credentials'' ''error'' cx)"
    using assms(1,3) by (simp add: login_invalid)
  show 2: "login chk d (POST f2) cx = (ServerError e, cx)"
    using assms(2,4) r by (rule login_raises)
  from 1 2 show "fst (login chk d (POST f1) cx) \<noteq> fst (login chk d (POST f2) cx)"
    by simp
qed

text \<open>
  On the sample store: an unknown name and Ahmed with a wrong password are answered
  alike; an unknown name and the user whose stored password is plain text are not.
\<close>

theorem failed_logins_compared_witness:
  "login (check_password_hash sample_verify) sample_db
       (POST \<lparr>form_username = ''Nobody'', form_password = ''secret1''\<rparr>) anonymous =
     login (check_password_hash sample_verify) sample_db
       (POST \<lparr>form_username = ''Ahmed'', form_password = ''wrong-password''\<rparr>) anonymous \<and>
   login (check_password_hash sample_verify) sample_db
       (POST \<lparr>form_username = ''Ahmed'', form_password = ''wrong-password''\<rparr>) anonymous =
     (Redirect ''login'', flash ''Invalid credentials'' ''error'' anonymous) \<and>
   login (check_password_hash sample_verify) sample_db
       (POST \<lparr>form_username = ''Legacy'', form_password = ''wrong-password''\<rparr>) anonymous =
     (ServerError (Failure ''ValueError''), anonymous)"
proof -
  let ?f1 = "\<lparr>form_username = ''Nobody'', form_password = ''secret1''\<rparr>"
  let ?f2 = "\<lparr>form_username = ''Ahmed'', form_password = ''wrong-password''\<rparr>"
  let ?f3 = "\<lparr>form_username = ''Legacy'', form_password = ''wrong-password''\<rparr>"
  have v1: "no_errors (LoginForm_errors ?f1)" by code_simp
  have v2: "no_errors (LoginForm_errors ?f2)" by code_simp
  have v3: "no_errors (LoginForm_errors ?f3)" by code_simp
  have unknown: "first_by_username sample_db (strip (form_username ?f1)) = None"
    by code_simp
  have known: "first_by_username sample_db (strip (form_username ?f2)) = Some ahmed"
    by code_simp
  have legacy: "first_by_username sample_db (strip (form_username ?f3)) = Some legacy_user"
    by code_simp
  have wrong: "check_password_hash sample_verify (User_password ahmed) (form_password ?f2) =
      Inr False"
    by code_simp
  have raises: "check_password_hash sample_verify (User_password legacy_user)
      (form_password ?f3) = Inl (Failure ''ValueError'')"
    by code_simp
  from failed_logins_compared
    [where chk = "check_password_hash sample_verify" and u = ahmed and cx = anonymous,
      OF v1 v2 unknown known] wrong
  have a: "login (check_password_hash sample_verify) sample_db (POST ?f1) anonymous =
      login (check_password_hash sample_verify) sample_db (POST ?f2) anonymous"
    and b: "login (check_password_hash sample_verify) sample_db (POST ?f2) anonymous =
      (Redirect ''login'', flash ''Invalid credentials'' ''error'' anonymous)"
    by blast+
  from failed_logins_compared
    [where chk = "check_password_hash sample_verify" and u = legacy_user
       and cx = anonymous and e = "Failure ''ValueError''", OF v1 v3 unknown legacy] raises
  have c: "login (check_password_hash sample_verify) sample_db (POST ?f3) anonymous =
      (ServerError (Failure ''ValueError''), anonymous)"
    by blast
  from a b c show ?thesis by simp
qed

text \<open>
  The two submissions of the claim, an unknown user name and a stored user name with a
  password that does not match, with responses that tell them apart.
\<close>

theorem raising_check_tells_users_apart:
  "login (check_password_hash sample_verify) sample_db
       (POST \<lparr>form_username = ''Nobody'', form_password = ''guess-123''\<rparr>) anonymous =
     (Redirect ''login'', flash ''Invalid credentials'' ''error'' anonymous) \<and>
   login (check_password_hash sample_verify) sample_db
       (POST \<lparr>form_username = ''Legacy'', form_password = ''guess-123''\<rparr>) anonymous =
     (ServerError (Failure ''ValueError''), anonymous)"
  by code_simp

text \<open>
  C7. Each of the six fields starts its chain with the required check.  For a value that
  is not blank the whole chain runs and every failing rule adds its message, in chain
  order, so a field can carry several messages.  For an empty or blank value the required
  check ends the chain, and the field carries the required message alone.
\<close>

theorem chain_stops_only_at_required:
  assumes "(name, chain) \<in> set (form_fields address_ok)"
  shows "\<exists>msg rest. chain = DataRequired msg # rest \<and>
           field_validate chain raw =
             (if strip raw = [] then [msg] else collect_all chain raw)"
proof -
  from assms consider
      "chain = LoginForm_username" | "chain = LoginForm_password"
    | "chain = ContactForm_name" | "chain = ContactForm_email address_ok"
    | "chain = ContactForm_phone" | "chain = ContactForm_message"
    by (auto simp: form_fields_def)
  then show ?thesis
  proof cases
    case 1
    then show ?thesis
      unfolding LoginForm_username_def
      by (rule required_chain) (simp_all add: plain_facts)
  next
    case 2
    then show ?thesis
      unfolding LoginForm_password_def
      by (rule required_chain) (simp_all add: plain_facts)
  next
    case 3
    then show ?thesis
      unfolding ContactForm_name_def
      by (rule required_chain) (simp_all add: plain_facts)
  next
    case 4
    then show ?thesis
      unfolding ContactForm_email_def
      by (rule required_chain) (simp_all add: plain_facts)
  next
    case 5
    then show ?thesis
      unfolding ContactForm_phone_def
      by (rule required_chain) (simp_all add: plain_facts)
  next
    case 6
    then show ?thesis
      unfolding ContactForm_message_def
      by (rule required_chain) (simp_all add: plain_facts)
  qed
qed

text \<open>The user name \<open>OR\<close> is too short and a keyword: the field carries both messages.\<close>

theorem chain_stops_only_at_required_witness:
  "(''username'', LoginForm_username) \<in> set (form_fields sample_address_ok) \<and>
   field_validate LoginForm_username ''OR'' =
     [''Username must be 3-80 characters'', ''Invalid characters or keywords detected'']"
proof -
  have m: "(''username'', LoginForm_username) \<in> set (form_fields sample_address_ok)"
    by (simp add: form_fields_def)
  have c: "collect_all LoginForm_username ''OR'' =
      [''Username must be 3-80 characters'', ''Invalid characters or keywords detected'']"
    by code_simp
  have s: "strip ''OR'' \<noteq> []" by code_simp
  from chain_stops_only_at_required [OF m, of "''OR''"] s
  have "field_validate LoginForm_username ''OR'' = collect_all LoginForm_username ''OR''"
    by auto
  with m c show ?thesis by simp
qed

text \<open>
  With the whole chain run on an empty user name, the length rule would add its message
  to the required one.  The field carries the required message only.
\<close>

theorem required_failure_stops_chain:
  "field_validate LoginForm_username [] = [''Username is required''] \<and>
   collect_all LoginForm_username [] =
     [''Username is required'', ''Username must be 3-80 characters'']"
  by code_simp

text \<open>
  C8. When the commit of a valid submission by a logged-in user raises, the added contact
  is rolled back: the committed contacts are as before and nothing is left pending.  The
  response is the redirect to \<open>contact\<close> with the one notice
  \<open>An error occurred. Please try again\<close>, whatever the exception was.
\<close>

theorem contact_commit_failure:
  assumes "user_id (session cx) = Some uid"
    and "no_errors (ContactForm_errors address_ok form)"
  shows "contact address_ok (Some e) d (POST form) cx =
           (Redirect ''contact'',
            flash ''An error occurred. Please try again'' ''error'' cx,
            d\<lparr>pending := []\<rparr>)"
  using assms by (simp add: contact_def Let_def db_commit_def db_rollback_def db_add_def)

theorem contact_commit_failure_witness:
  "contact sample_address_ok (Some (Failure ''OperationalError'')) sample_db
       (POST sample_contact) signed_in =
     (Redirect ''contact'',
      flash ''An error occurred. Please try again'' ''error'' signed_in,
      sample_db)"
proof -
  have "contact sample_address_ok (Some (Failure ''OperationalError'')) sample_db
       (POST sample_contact) signed_in =
     (Redirect ''contact'',
      flash ''An error occurred. Please try again'' ''error'' signed_in,
      sample_db\<lparr>pending := []\<rparr>)"
    by (rule contact_commit_failure [OF signed_in_user sample_contact_valid])
  then show ?thesis by (simp add: sample_db_def)
qed




end
